theory Spec2Isabelle
  imports Main
begin

section \<open>Data model of the Google Workspace groups entity provider\<close>

text \<open>
  The two annotation keys imported from the catalog model. The provider only ever uses
  them as the keys of an entity's annotation object, so they are modelled as the two
  values of an enumeration.
\<close>

datatype annotation_key = ANNOTATION_LOCATION | ANNOTATION_ORIGIN_LOCATION

text \<open>
  Directory records (\<open>admin_directory_v1.Schema$Group\<close> and \<open>Schema$Member\<close>). Every field
  of these records may be missing in a response, hence the \<open>option\<close>s; the provider
  casts them with \<open>as string\<close>, which does nothing at run time.
\<close>

record Schema_Group =
  g_id :: "string option"
  g_name :: "string option"
  g_description :: "string option"
  g_email :: "string option"

record Schema_Member =
  m_id :: "string option"
  m_email :: "string option"

text \<open>The responses of \<open>groups.list\<close> and \<open>members.list\<close>, as far as \<open>run\<close> reads them.\<close>

record groups_response =
  data_groups :: "Schema_Group list option"
  request_responseURL :: string

record members_response =
  data_members :: "Schema_Member list option"

text \<open>The two entity shapes built by \<open>run\<close>, with the nesting of the object literals flattened.\<close>

record GroupEntity =
  ge_apiVersion :: string
  ge_kind :: string
  ge_uid :: "string option"
  ge_name :: string
  ge_description :: "string option"
  ge_tags :: "string list"
  ge_annotations :: "(annotation_key \<times> string) list"
  ge_type :: string
  ge_displayName :: "string option"
  ge_email :: "string option"
  ge_members :: "string list"
  ge_children :: "string list"

record UserEntity =
  ue_apiVersion :: string
  ue_kind :: string
  ue_uid :: "string option"
  ue_name :: string
  ue_tags :: "string list"
  ue_annotations :: "(annotation_key \<times> string) list"
  ue_email :: string
  ue_memberOf :: "string list"

datatype Entity = Group GroupEntity | User UserEntity

fun annotations :: "Entity \<Rightarrow> (annotation_key \<times> string) list" where
  "annotations (Group ge) = ge_annotations ge"
| "annotations (User ue) = ue_annotations ue"

text \<open>The argument of \<open>applyMutation\<close>.\<close>

record deferred_entity =
  entity :: Entity
  locationKey :: "string option"

record mutation =
  mutation_type :: string
  mutation_entities :: "deferred_entity list"

text \<open>Everything \<open>run\<close> can throw.\<close>

datatype error =
    ConnectionNotInitialized
  | ClientNotInitialized
  | ConfigError string
  | GroupsAndQueryBothSet
  | QueryEmpty
  | ApiError string
  | TypeError
  | SinkError string

text \<open>
  The effects of one run, in the order in which they happen: what is logged, the two
  kinds of directory call with their outcome, the call of the sink with its outcome,
  and the pause after each group.
\<close>

datatype event =
    LogError error
  | GroupsList string "string option" "string + groups_response"
  | MembersList "string option" "string + members_response"
  | ApplyMutation mutation "string option"
  | Delay nat

type_synonym trace = "event list"

text \<open>
  The collaborators of the provider. What a call returns may depend on everything that
  happened before in the run, so each of them takes the trace so far. A directory call
  returns either the message of the rejection or the response; the sink returns the
  message of the rejection, if it rejects.
\<close>

record directory_client =
  groups_list :: "trace \<Rightarrow> string \<Rightarrow> string option \<Rightarrow> string + groups_response"
  members_list :: "trace \<Rightarrow> string option \<Rightarrow> string + members_response"

type_synonym provider_connection = "trace \<Rightarrow> mutation \<Rightarrow> string option"

text \<open>
  The three configuration keys as the accessor returns them: \<open>getString\<close> throws when the
  key is missing, \<open>getOptionalStringArray\<close> returns \<open>undefined\<close> when it is missing and
  throws when the value is no string array.
\<close>

record config =
  customerId :: "string + string"
  groups :: "string + string list option"
  query :: "string + string list option"

record provider =
  config_of :: config
  connection :: "provider_connection option"
  directoryApiClient :: "directory_client option"

section \<open>The procedure \<open>run\<close>\<close>

text \<open>\<open>xs || []\<close>, and \<open>Array.isArray(xs) ? xs : []\<close>, for a field that holds an array when it is there.\<close>

definition or_empty :: "'a list option \<Rightarrow> 'a list" where
  "or_empty xs = (case xs of None \<Rightarrow> [] | Some ys \<Rightarrow> ys)"

text \<open>\<open>email.split('@')[0]\<close>: the text before the first \<open>@\<close>, all of it when there is none.\<close>

definition split_at_0 :: "string \<Rightarrow> string" where
  "split_at_0 s = takeWhile (\<lambda>c. c \<noteq> CHR ''@'') s"

text \<open>The template literal \<open>`ggroups:${groupsResponse.request.responseURL}`\<close>.\<close>

definition location_of :: "groups_response \<Rightarrow> string" where
  "location_of r = ''ggroups:'' @ request_responseURL r"

text \<open>
  The group entity literal of the loop body. \<open>kebabCase\<close> is lodash's function, a
  parameter here; it turns a missing argument into the empty string first.
\<close>

definition group_entity :: "(string \<Rightarrow> string) \<Rightarrow> groups_response \<Rightarrow> Schema_Group \<Rightarrow> GroupEntity" where
  "group_entity kebabCase groupsResponse ggroup =
     \<lparr> ge_apiVersion = ''backstage.io/v1alpha1'',
       ge_kind = ''Group'',
       ge_uid = g_id ggroup,
       ge_name = kebabCase (case g_name ggroup of None \<Rightarrow> [] | Some n \<Rightarrow> n),
       ge_description = g_description ggroup,
       ge_tags = [''google-groups''],
       ge_annotations =
         [(ANNOTATION_LOCATION, location_of groupsResponse),
          (ANNOTATION_ORIGIN_LOCATION, location_of groupsResponse)],
       ge_type = ''team'',
       ge_displayName = g_name ggroup,
       ge_email = g_email ggroup,
       ge_members = [],
       ge_children = [] \<rparr>"

text \<open>The user entity literal; \<open>email\<close> is the member's address, on which \<open>split\<close> worked.\<close>

definition user_entity :: "groups_response \<Rightarrow> GroupEntity \<Rightarrow> Schema_Member \<Rightarrow> string \<Rightarrow> UserEntity" where
  "user_entity groupsResponse groupEntity ggroupMember email =
     \<lparr> ue_apiVersion = ''backstage.io/v1alpha1'',
       ue_kind = ''User'',
       ue_uid = m_id ggroupMember,
       ue_name = split_at_0 email,
       ue_tags = [''google-groups''],
       ue_annotations =
         [(ANNOTATION_LOCATION, location_of groupsResponse),
          (ANNOTATION_ORIGIN_LOCATION, location_of groupsResponse)],
       ue_email = email,
       ue_memberOf = [ge_name groupEntity] \<rparr>"

text \<open>
  The loop over the members of one group. It pushes each user's name on the group
  entity's member list and the user on \<open>entities\<close>. Calling \<open>split\<close> on a missing address
  throws a \<open>TypeError\<close>.
\<close>

fun members_loop ::
  "groups_response \<Rightarrow> Schema_Member list \<Rightarrow> GroupEntity \<Rightarrow> Entity list \<Rightarrow>
   error + (GroupEntity \<times> Entity list)" where
  "members_loop groupsResponse [] groupEntity entities = Inr (groupEntity, entities)"
| "members_loop groupsResponse (ggroupMember # rest) groupEntity entities =
     (case m_email ggroupMember of
        None \<Rightarrow> Inl TypeError
      | Some email \<Rightarrow>
          let userEntity = user_entity groupsResponse groupEntity ggroupMember email
          in members_loop groupsResponse rest
               (groupEntity\<lparr>ge_members := ge_members groupEntity @ [ue_name userEntity]\<rparr>)
               (entities @ [User userEntity]))"

text \<open>
  The loop over the surviving groups: build the group entity, fetch the members, run the
  member loop, push the group entity, pause for a second. \<open>groupsResponse\<close> is the variable
  of \<open>run\<close> as the fetch left it; reading \<open>request\<close> from it throws when it was never
  assigned.
\<close>

fun groups_loop ::
  "(string \<Rightarrow> string) \<Rightarrow> directory_client \<Rightarrow> groups_response option \<Rightarrow> Schema_Group list \<Rightarrow>
   Entity list \<Rightarrow> trace \<Rightarrow> (error + Entity list) \<times> trace" where
  "groups_loop kebabCase client groupsResponse [] entities tr = (Inr entities, tr)"
| "groups_loop kebabCase client groupsResponse (ggroup # rest) entities tr =
     (case groupsResponse of
        None \<Rightarrow> (Inl TypeError, tr)
      | Some response \<Rightarrow>
          (case members_list client tr (g_id ggroup) of
             Inl msg \<Rightarrow> (Inl (ApiError msg), tr @ [MembersList (g_id ggroup) (Inl msg)])
           | Inr ggroupMembersResponse \<Rightarrow>
               (case members_loop response (or_empty (data_members ggroupMembersResponse))
                       (group_entity kebabCase response ggroup) entities of
                  Inl e \<Rightarrow> (Inl e, tr @ [MembersList (g_id ggroup) (Inr ggroupMembersResponse)])
                | Inr (groupEntity, entities') \<Rightarrow>
                    groups_loop kebabCase client groupsResponse rest
                      (entities' @ [Group groupEntity])
                      (tr @ [MembersList (g_id ggroup) (Inr ggroupMembersResponse), Delay 1000]))))"

text \<open>
  The loop over the query expressions: one listing call each, the groups of each response
  appended to \<open>ggroups\<close> when the field is an array, \<open>groupsResponse\<close> overwritten each time.
\<close>

fun query_loop ::
  "directory_client \<Rightarrow> string \<Rightarrow> string list \<Rightarrow> groups_response option \<Rightarrow> Schema_Group list \<Rightarrow>
   trace \<Rightarrow> (error + (groups_response option \<times> Schema_Group list)) \<times> trace" where
  "query_loop client customerIdConfig [] groupsResponse ggroups tr =
     (Inr (groupsResponse, ggroups), tr)"
| "query_loop client customerIdConfig (q # rest) groupsResponse ggroups tr =
     (case groups_list client tr customerIdConfig (Some q) of
        Inl msg \<Rightarrow> (Inl (ApiError msg), tr @ [GroupsList customerIdConfig (Some q) (Inl msg)])
      | Inr response \<Rightarrow>
          query_loop client customerIdConfig rest (Some response)
            (ggroups @ or_empty (data_groups response))
            (tr @ [GroupsList customerIdConfig (Some q) (Inr response)]))"

text \<open>
  Fetching the groups: without a query list one call whose \<open>groups\<close> field becomes
  \<open>ggroups\<close> as it is (possibly \<open>undefined\<close>), with a query list the loop above.
\<close>

definition fetch_groups ::
  "directory_client \<Rightarrow> string \<Rightarrow> string list option \<Rightarrow> trace \<Rightarrow>
   (error + (groups_response option \<times> Schema_Group list option)) \<times> trace" where
  "fetch_groups client customerIdConfig queryConfig tr =
     (case queryConfig of
        None \<Rightarrow>
          (case groups_list client tr customerIdConfig None of
             Inl msg \<Rightarrow> (Inl (ApiError msg), tr @ [GroupsList customerIdConfig None (Inl msg)])
           | Inr response \<Rightarrow>
               (Inr (Some response, data_groups response),
                tr @ [GroupsList customerIdConfig None (Inr response)]))
      | Some queries \<Rightarrow>
          (case query_loop client customerIdConfig queries None [] tr of
             (Inl e, tr') \<Rightarrow> (Inl e, tr')
           | (Inr (groupsResponse, ggroups), tr') \<Rightarrow> (Inr (groupsResponse, Some ggroups), tr')))"

text \<open>
  The allow-list filter. \<open>includes\<close> never finds a missing address; \<open>?.\<close> leaves a missing
  \<open>ggroups\<close> alone.
\<close>

definition includes_email :: "string list \<Rightarrow> Schema_Group \<Rightarrow> bool" where
  "includes_email groupsConfig ggroup =
     (case g_email ggroup of None \<Rightarrow> False | Some a \<Rightarrow> a \<in> set groupsConfig)"

definition filter_groups ::
  "string list option \<Rightarrow> Schema_Group list option \<Rightarrow> Schema_Group list option" where
  "filter_groups groupsConfig ggroups =
     (case groupsConfig of
        None \<Rightarrow> ggroups
      | Some allowed \<Rightarrow> map_option (filter (includes_email allowed)) ggroups)"

text \<open>
  Reading and checking the configuration. Only the failure of \<open>customerId\<close> and the two
  checks are logged; a throwing \<open>getOptionalStringArray\<close> is not caught.
\<close>

definition read_config :: "config \<Rightarrow> (error + (string \<times> string list option \<times> string list option)) \<times> trace" where
  "read_config cfg =
     (case customerId cfg of
        Inl msg \<Rightarrow> (Inl (ConfigError msg), [LogError (ConfigError msg)])
      | Inr customerIdConfig \<Rightarrow>
          (case groups cfg of
             Inl msg \<Rightarrow> (Inl (ConfigError msg), [])
           | Inr groupsConfig \<Rightarrow>
               (case query cfg of
                  Inl msg \<Rightarrow> (Inl (ConfigError msg), [])
                | Inr queryConfig \<Rightarrow>
                    if groupsConfig \<noteq> None \<and> queryConfig \<noteq> None
                    then (Inl GroupsAndQueryBothSet, [LogError GroupsAndQueryBothSet])
                    else if queryConfig = Some []
                    then (Inl QueryEmpty, [LogError QueryEmpty])
                    else (Inr (customerIdConfig, groupsConfig, queryConfig), []))))"

text \<open>
  The part of \<open>run\<close> between the two lifecycle checks and the test of \<open>entities.length\<close>:
  it yields the entity sequence.
\<close>

definition collect_entities ::
  "(string \<Rightarrow> string) \<Rightarrow> directory_client \<Rightarrow> config \<Rightarrow> (error + Entity list) \<times> trace" where
  "collect_entities kebabCase client cfg =
     (case read_config cfg of
        (Inl e, tr) \<Rightarrow> (Inl e, tr)
      | (Inr (customerIdConfig, groupsConfig, queryConfig), tr) \<Rightarrow>
          (case fetch_groups client customerIdConfig queryConfig tr of
             (Inl e, tr') \<Rightarrow> (Inl e, tr')
           | (Inr (groupsResponse, ggroups), tr') \<Rightarrow>
               groups_loop kebabCase client groupsResponse
                 (or_empty (filter_groups groupsConfig ggroups)) [] tr'))"

text \<open>The argument of the final \<open>applyMutation\<close>.\<close>

definition full_mutation :: "Entity list \<Rightarrow> mutation" where
  "full_mutation es =
     \<lparr> mutation_type = ''full'',
       mutation_entities = map (\<lambda>e. \<lparr> entity = e, locationKey = map_of (annotations e) ANNOTATION_LOCATION \<rparr>) es \<rparr>"

definition run :: "(string \<Rightarrow> string) \<Rightarrow> provider \<Rightarrow> (error + unit) \<times> trace" where
  "run kebabCase p =
     (case connection p of
        None \<Rightarrow> (Inl ConnectionNotInitialized, [LogError ConnectionNotInitialized])
      | Some applyMutation \<Rightarrow>
          (case directoryApiClient p of
             None \<Rightarrow> (Inl ClientNotInitialized, [LogError ClientNotInitialized])
           | Some client \<Rightarrow>
               (case collect_entities kebabCase client (config_of p) of
                  (Inl e, tr) \<Rightarrow> (Inl e, tr)
                | (Inr es, tr) \<Rightarrow>
                    if es = [] then (Inr (), tr)
                    else (case applyMutation tr (full_mutation es) of
                            None \<Rightarrow> (Inr (), tr @ [ApplyMutation (full_mutation es) None])
                          | Some msg \<Rightarrow>
                              (Inl (SinkError msg),
                               tr @ [ApplyMutation (full_mutation es) (Some msg)])))))"

section \<open>Reading a trace\<close>

fun listing_calls :: "trace \<Rightarrow> (string \<times> string option) list" where
  "listing_calls [] = []"
| "listing_calls (GroupsList c q r # tr) = (c, q) # listing_calls tr"
| "listing_calls (ev # tr) = listing_calls tr"

fun listing_responses :: "trace \<Rightarrow> groups_response list" where
  "listing_responses [] = []"
| "listing_responses (GroupsList c q (Inr r) # tr) = r # listing_responses tr"
| "listing_responses (ev # tr) = listing_responses tr"

fun member_calls :: "trace \<Rightarrow> string option list" where
  "member_calls [] = []"
| "member_calls (MembersList k r # tr) = k # member_calls tr"
| "member_calls (ev # tr) = member_calls tr"

fun member_responses :: "trace \<Rightarrow> members_response list" where
  "member_responses [] = []"
| "member_responses (MembersList k (Inr r) # tr) = r # member_responses tr"
| "member_responses (ev # tr) = member_responses tr"

fun mutations :: "trace \<Rightarrow> mutation list" where
  "mutations [] = []"
| "mutations (ApplyMutation m r # tr) = m # mutations tr"
| "mutations (ev # tr) = mutations tr"

section \<open>Notions used in the statements\<close>

text \<open>
  The members and the groups a response carries, a missing field counting as none.
\<close>

definition members_of :: "members_response \<Rightarrow> Schema_Member list" where
  "members_of mr = or_empty (data_members mr)"

definition groups_of :: "groups_response \<Rightarrow> Schema_Group list" where
  "groups_of r = or_empty (data_groups r)"

text \<open>
  A member list on which the member loop does not throw, and the names it pushes on the
  group entity.
\<close>

definition emails_present :: "Schema_Member list \<Rightarrow> bool" where
  "emails_present ms = list_all (\<lambda>m. m_email m \<noteq> None) ms"

definition member_names :: "Schema_Member list \<Rightarrow> string list" where
  "member_names ms = map (\<lambda>m. split_at_0 (the (m_email m))) ms"

text \<open>
  What one pass of the group loop appends to \<open>entities\<close> for the group \<open>g\<close> with the
  fetched members \<open>ms\<close>: the users in the order of the members, then the group entity
  with all their names.
\<close>

definition entities_of_group ::
  "(string \<Rightarrow> string) \<Rightarrow> groups_response \<Rightarrow> Schema_Group \<Rightarrow> Schema_Member list \<Rightarrow> Entity list" where
  "entities_of_group k r g ms =
     map (\<lambda>m. User (user_entity r (group_entity k r g) m (the (m_email m)))) ms
     @ [Group ((group_entity k r g)\<lparr>ge_members := member_names ms\<rparr>)]"

text \<open>
  The groups the loop runs over, given the allow-list and the fetched groups.
\<close>

definition kept_groups :: "string list option \<Rightarrow> Schema_Group list \<Rightarrow> Schema_Group list" where
  "kept_groups gc fetched = (case gc of None \<Rightarrow> fetched | Some allowed \<Rightarrow> filter (includes_email allowed) fetched)"

text \<open>
  The group entities of an entity sequence, in order.
\<close>

fun group_entities :: "Entity list \<Rightarrow> GroupEntity list" where
  "group_entities [] = []"
| "group_entities (Group ge # es) = ge # group_entities es"
| "group_entities (User ue # es) = group_entities es"


section \<open>An example directory\<close>

text \<open>
  A directory with two groups, the first with one member. \<open>example_kebabCase\<close> stands in
  for lodash's \<open>kebabCase\<close> on the names used here. The listing answers the query
  expressions \<open>a\<close>, \<open>b\<close> and \<open>c\<close> with the first group, the second group and both.
\<close>

definition example_kebabCase :: "string \<Rightarrow> string" where
  "example_kebabCase s = map (\<lambda>c. if c = CHR '' '' then CHR ''-'' else c) s"

definition group_one :: Schema_Group where
  "group_one = \<lparr> g_id = Some ''g1'', g_name = Some ''team one'',
                 g_description = Some ''first team'', g_email = Some ''g1@x.com'' \<rparr>"

definition group_two :: Schema_Group where
  "group_two = \<lparr> g_id = Some ''g2'', g_name = Some ''team two'',
                 g_description = None, g_email = Some ''g2@x.com'' \<rparr>"

definition member_jdoe :: Schema_Member where
  "member_jdoe = \<lparr> m_id = Some ''u1'', m_email = Some ''jdoe@example.com'' \<rparr>"

text \<open>
  A member of type \<open>CUSTOMER\<close> (all users of the account): the directory returns it
  without an address.
\<close>

definition member_customer :: Schema_Member where
  "member_customer = \<lparr> m_id = Some ''C1'', m_email = None \<rparr>"

definition example_listing :: "trace \<Rightarrow> string \<Rightarrow> string option \<Rightarrow> string + groups_response" where
  "example_listing tr customer q =
     (case q of
        None \<Rightarrow> Inr \<lparr> data_groups = Some [group_one, group_two], request_responseURL = ''https://dir/groups'' \<rparr>
      | Some x \<Rightarrow>
          if x = ''a'' then Inr \<lparr> data_groups = Some [group_one], request_responseURL = ''https://dir/groups?query=a'' \<rparr>
          else if x = ''b'' then Inr \<lparr> data_groups = Some [group_two], request_responseURL = ''https://dir/groups?query=b'' \<rparr>
          else if x = ''c'' then Inr \<lparr> data_groups = Some [group_one, group_two], request_responseURL = ''https://dir/groups?query=c'' \<rparr>
          else Inr \<lparr> data_groups = None, request_responseURL = ''https://dir/groups?query='' @ x \<rparr>)"

definition example_client :: directory_client where
  "example_client =
     \<lparr> groups_list = example_listing,
       members_list = (\<lambda>tr key. if key = Some ''g1'' then Inr \<lparr> data_members = Some [member_jdoe] \<rparr>
                                 else Inr \<lparr> data_members = None \<rparr>) \<rparr>"

text \<open>
  Variants: the member listing fails for every group but the first; every group has the
  customer as a member; the group listing carries no \<open>groups\<close> field.
\<close>

definition failing_client :: directory_client where
  "failing_client =
     \<lparr> groups_list = example_listing,
       members_list = (\<lambda>tr key. if key = Some ''g1'' then Inr \<lparr> data_members = Some [member_jdoe] \<rparr>
                                 else Inl ''quota exceeded'') \<rparr>"

definition customer_member_client :: directory_client where
  "customer_member_client =
     \<lparr> groups_list = example_listing,
       members_list = (\<lambda>tr key. Inr \<lparr> data_members = Some [member_jdoe, member_customer] \<rparr>) \<rparr>"

definition no_groups_client :: directory_client where
  "no_groups_client =
     \<lparr> groups_list = (\<lambda>tr customer q. Inr \<lparr> data_groups = None, request_responseURL = ''https://dir/groups'' \<rparr>),
       members_list = (\<lambda>tr key. Inl ''not found'') \<rparr>"

text \<open>
  A directory that rejects every group key it did not list itself.
\<close>

definition picky_client :: directory_client where
  "picky_client =
     \<lparr> groups_list = example_listing,
       members_list = (\<lambda>tr key. if key = Some ''g1'' then Inr \<lparr> data_members = Some [member_jdoe] \<rparr>
                                 else if key = Some ''g2'' then Inr \<lparr> data_members = None \<rparr>
                                 else Inl ''unknown group'') \<rparr>"

text \<open>
  A connected provider whose sink accepts everything, and the configurations used below.
\<close>

definition example_provider :: "config \<Rightarrow> directory_client \<Rightarrow> provider" where
  "example_provider cfg client =
     \<lparr> config_of = cfg, connection = Some (\<lambda>tr m. None), directoryApiClient = Some client \<rparr>"

definition config_all :: config where
  "config_all = \<lparr> customerId = Inr ''C1'', groups = Inr None, query = Inr None \<rparr>"

definition config_allow :: config where
  "config_allow = \<lparr> customerId = Inr ''C1'', groups = Inr (Some [''g1@x.com'']), query = Inr None \<rparr>"

definition config_both :: config where
  "config_both = \<lparr> customerId = Inr ''C1'', groups = Inr (Some [''g1@x.com'']), query = Inr (Some [''a'']) \<rparr>"

definition config_no_query :: config where
  "config_no_query = \<lparr> customerId = Inr ''C1'', groups = Inr None, query = Inr (Some []) \<rparr>"

definition config_nothing_allowed :: config where
  "config_nothing_allowed = \<lparr> customerId = Inr ''C1'', groups = Inr (Some []), query = Inr None \<rparr>"

definition config_query :: "string list \<Rightarrow> config" where
  "config_query qs = \<lparr> customerId = Inr ''C1'', groups = Inr None, query = Inr (Some qs) \<rparr>"

text \<open>
  The entities the example directory gives rise to, for a given location annotation.
\<close>

definition user_jdoe :: "string \<Rightarrow> UserEntity" where
  "user_jdoe location =
     \<lparr> ue_apiVersion = ''backstage.io/v1alpha1'', ue_kind = ''User'', ue_uid = Some ''u1'',
       ue_name = ''jdoe'', ue_tags = [''google-groups''],
       ue_annotations = [(ANNOTATION_LOCATION, location), (ANNOTATION_ORIGIN_LOCATION, location)],
       ue_email = ''jdoe@example.com'', ue_memberOf = [''team-one''] \<rparr>"

definition entity_one :: "string \<Rightarrow> GroupEntity" where
  "entity_one location =
     \<lparr> ge_apiVersion = ''backstage.io/v1alpha1'', ge_kind = ''Group'', ge_uid = Some ''g1'',
       ge_name = ''team-one'', ge_description = Some ''first team'', ge_tags = [''google-groups''],
       ge_annotations = [(ANNOTATION_LOCATION, location), (ANNOTATION_ORIGIN_LOCATION, location)],
       ge_type = ''team'', ge_displayName = Some ''team one'', ge_email = Some ''g1@x.com'',
       ge_members = [''jdoe''], ge_children = [] \<rparr>"

definition entity_two :: "string \<Rightarrow> GroupEntity" where
  "entity_two location =
     \<lparr> ge_apiVersion = ''backstage.io/v1alpha1'', ge_kind = ''Group'', ge_uid = Some ''g2'',
       ge_name = ''team-two'', ge_description = None, ge_tags = [''google-groups''],
       ge_annotations = [(ANNOTATION_LOCATION, location), (ANNOTATION_ORIGIN_LOCATION, location)],
       ge_type = ''team'', ge_displayName = Some ''team two'', ge_email = Some ''g2@x.com'',
       ge_members = [], ge_children = [] \<rparr>"

definition example_entities :: "string \<Rightarrow> Entity list" where
  "example_entities location =
     [User (user_jdoe location), Group (entity_one location), Group (entity_two location)]"

section \<open>Facts about the loops and the phases of \<open>run\<close>\<close>

lemmas example_defs = example_kebabCase_def group_one_def group_two_def member_jdoe_def
  member_customer_def example_listing_def example_client_def failing_client_def
  customer_member_client_def no_groups_client_def picky_client_def example_provider_def
  config_all_def config_allow_def config_both_def config_no_query_def
  config_nothing_allowed_def config_query_def
  user_jdoe_def entity_one_def entity_two_def example_entities_def

lemmas run_defs = run_def collect_entities_def read_config_def fetch_groups_def filter_groups_def
  includes_email_def or_empty_def group_entity_def user_entity_def location_of_def split_at_0_def
  full_mutation_def

lemmas all_defs = example_defs run_defs

subsection \<open>Reading an appended trace\<close>

lemma listing_calls_append: "listing_calls (a @ b) = listing_calls a @ listing_calls b"
  by (induction a rule: listing_calls.induct) auto

lemma listing_responses_append:
  "listing_responses (a @ b) = listing_responses a @ listing_responses b"
  by (induction a rule: listing_responses.induct) auto

lemma member_calls_append: "member_calls (a @ b) = member_calls a @ member_calls b"
  by (induction a rule: member_calls.induct) auto

lemma member_responses_append:
  "member_responses (a @ b) = member_responses a @ member_responses b"
  by (induction a rule: member_responses.induct) auto

lemma mutations_append: "mutations (a @ b) = mutations a @ mutations b"
  by (induction a rule: mutations.induct) auto

lemma listing_calls_map2:
  "length rs = length qs \<Longrightarrow>
   listing_calls (map2 (\<lambda>q r. GroupsList cid (Some q) (Inr r)) qs rs) = map (\<lambda>q. (cid, Some q)) qs"
  by (induction qs rs rule: list_induct2') auto

lemma listing_responses_map2:
  "length rs = length qs \<Longrightarrow>
   listing_responses (map2 (\<lambda>q r. GroupsList cid (Some q) (Inr r)) qs rs) = rs"
  by (induction qs rs rule: list_induct2') auto

lemma member_calls_map2:
  "member_calls (map2 (\<lambda>q r. GroupsList cid (Some q) (Inr r)) qs rs) = []"
  by (induction qs rs rule: list_induct2') auto

lemma member_responses_map2:
  "member_responses (map2 (\<lambda>q r. GroupsList cid (Some q) (Inr r)) qs rs) = []"
  by (induction qs rs rule: list_induct2') auto

lemma mutations_map2:
  "mutations (map2 (\<lambda>q r. GroupsList cid (Some q) (Inr r)) qs rs) = []"
  by (induction qs rs rule: list_induct2') auto


subsection \<open>The member loop\<close>

lemma user_entity_members_irrelevant:
  "user_entity r (ge\<lparr>ge_members := x\<rparr>) m e = user_entity r ge m e"
  by (simp add: user_entity_def)

lemma members_loop_eq:
  "members_loop r ms ge es =
     (if emails_present ms
      then Inr (ge\<lparr>ge_members := ge_members ge @ member_names ms\<rparr>,
                es @ map (\<lambda>m. User (user_entity r ge m (the (m_email m)))) ms)
      else Inl TypeError)"
proof (induction ms arbitrary: ge es)
  case Nil
  then show ?case by (simp add: emails_present_def member_names_def)
next
  case (Cons m ms)
  show ?case
  proof (cases "m_email m")
    case None
    then show ?thesis by (simp add: emails_present_def)
  next
    case (Some e)
    then show ?thesis
      using Cons.IH
      by (simp add: emails_present_def member_names_def user_entity_members_irrelevant Let_def)
        (simp add: user_entity_def)
  qed
qed

subsection \<open>The group loop\<close>

lemma groups_loop_trace:
  "groups_loop k c resp gs es tr = (res, tr') \<Longrightarrow>
   \<exists>new. tr' = tr @ new \<and> listing_calls new = [] \<and> listing_responses new = [] \<and> mutations new = []"
proof (induction gs arbitrary: es tr)
  case Nil
  then show ?case by simp
next
  case (Cons g gs)
  show ?case
  proof (cases resp)
    case None
    with Cons.prems show ?thesis by simp
  next
    case (Some r)
    show ?thesis
    proof (cases "members_list c tr (g_id g)")
      case (Inl msg)
      with Some Cons.prems show ?thesis by auto
    next
      case (Inr mr)
      show ?thesis
      proof (cases "members_loop r (or_empty (data_members mr)) (group_entity k r g) es")
        case (Inl e)
        with Some Inr Cons.prems show ?thesis by auto
      next
        case inner: (Inr pair)
        obtain ge es1 where pair: "pair = (ge, es1)" by (cases pair)
        from Some Inr inner pair Cons.prems
        have "groups_loop k c resp gs (es1 @ [Group ge])
                (tr @ [MembersList (g_id g) (Inr mr), Delay 1000]) = (res, tr')"
          by simp
        from Cons.IH [OF this] obtain new where
          "tr' = (tr @ [MembersList (g_id g) (Inr mr), Delay 1000]) @ new"
          "listing_calls new = []" "listing_responses new = []" "mutations new = []"
          by blast
        then show ?thesis
          by (intro exI [of _ "[MembersList (g_id g) (Inr mr), Delay 1000] @ new"])
             (simp add: listing_calls_append listing_responses_append mutations_append)
      qed
    qed
  qed
qed

lemma groups_loop_success:
  "groups_loop k c (Some r) gs es tr = (Inr es', tr') \<Longrightarrow>
   \<exists>new. tr' = tr @ new \<and> member_calls new = map g_id gs
     \<and> length (member_responses new) = length gs
     \<and> list_all (\<lambda>mr. emails_present (members_of mr)) (member_responses new)
     \<and> es' = es @ concat (map2 (\<lambda>g mr. entities_of_group k r g (members_of mr)) gs (member_responses new))"
proof (induction gs arbitrary: es tr)
  case Nil
  then show ?case by simp
next
  case (Cons g gs)
  show ?case
  proof (cases "members_list c tr (g_id g)")
    case (Inl msg)
    with Cons.prems show ?thesis by simp
  next
    case (Inr mr)
    show ?thesis
    proof (cases "emails_present (members_of mr)")
      case False
      with Inr Cons.prems show ?thesis
        by (simp add: members_loop_eq members_of_def)
    next
      case True
      let ?ge = "group_entity k r g"
      let ?tr1 = "tr @ [MembersList (g_id g) (Inr mr), Delay 1000]"
      from True Inr Cons.prems
      have "groups_loop k c (Some r) gs (es @ entities_of_group k r g (members_of mr)) ?tr1
              = (Inr es', tr')"
        by (simp add: members_loop_eq members_of_def entities_of_group_def group_entity_def)
      from Cons.IH [OF this] obtain new where new:
        "tr' = ?tr1 @ new" "member_calls new = map g_id gs"
        "length (member_responses new) = length gs"
        "list_all (\<lambda>mr. emails_present (members_of mr)) (member_responses new)"
        "es' = (es @ entities_of_group k r g (members_of mr))
               @ concat (map2 (\<lambda>g mr. entities_of_group k r g (members_of mr)) gs (member_responses new))"
        by blast
      show ?thesis
        using new True
        by (intro exI [of _ "[MembersList (g_id g) (Inr mr), Delay 1000] @ new"])
           (simp add: member_calls_append member_responses_append)
    qed
  qed
qed

lemma groups_loop_total:
  assumes "\<And>tr key. \<exists>mr. members_list c tr key = Inr mr \<and> emails_present (members_of mr)"
  shows "\<exists>es' tr'. groups_loop k c (Some r) gs es tr = (Inr es', tr')"
proof (induction gs arbitrary: es tr)
  case Nil
  then show ?case by simp
next
  case (Cons g gs)
  from assms obtain mr where mr: "members_list c tr (g_id g) = Inr mr" "emails_present (members_of mr)"
    by blast
  then show ?case
    using Cons.IH by (simp add: members_loop_eq members_of_def)
qed


lemma groups_loop_failure:
  "groups_loop k c (Some r) gs es tr = (Inl e, tr') \<Longrightarrow>
   \<exists>new key res. tr' = tr @ new \<and> MembersList key res \<in> set new
     \<and> (\<forall>mr. res = Inr mr \<longrightarrow> \<not> emails_present (members_of mr))"
proof (induction gs arbitrary: es tr)
  case Nil
  then show ?case by simp
next
  case (Cons g gs)
  show ?case
  proof (cases "members_list c tr (g_id g)")
    case (Inl msg)
    with Cons.prems have "tr' = tr @ [MembersList (g_id g) (Inl msg)]" by simp
    then show ?thesis by fastforce
  next
    case (Inr mr)
    show ?thesis
    proof (cases "emails_present (members_of mr)")
      case False
      with Inr Cons.prems have "tr' = tr @ [MembersList (g_id g) (Inr mr)]"
        by (simp add: members_loop_eq members_of_def)
      with False show ?thesis by fastforce
    next
      case True
      let ?tr1 = "tr @ [MembersList (g_id g) (Inr mr), Delay 1000]"
      from True Inr Cons.prems
      have "groups_loop k c (Some r) gs (es @ entities_of_group k r g (members_of mr)) ?tr1
              = (Inl e, tr')"
        by (simp add: members_loop_eq members_of_def entities_of_group_def group_entity_def)
      from Cons.IH [OF this] obtain new key res where
        "tr' = ?tr1 @ new" "MembersList key res \<in> set new"
        "\<forall>mr. res = Inr mr \<longrightarrow> \<not> emails_present (members_of mr)"
        by blast
      then show ?thesis
        by (intro exI [of _ "[MembersList (g_id g) (Inr mr), Delay 1000] @ new"]
                  exI [of _ key] exI [of _ res]) simp
    qed
  qed
qed

subsection \<open>Fetching and filtering\<close>

lemma query_loop_trace:
  "query_loop c cid qs resp gs tr = (res, tr') \<Longrightarrow>
   \<exists>new. tr' = tr @ new \<and> member_calls new = [] \<and> mutations new = []"
proof (induction qs arbitrary: resp gs tr)
  case Nil
  then show ?case by simp
next
  case (Cons q qs)
  show ?case
  proof (cases "groups_list c tr cid (Some q)")
    case (Inl msg)
    with Cons.prems show ?thesis by auto
  next
    case (Inr r)
    with Cons.prems
    have "query_loop c cid qs (Some r) (gs @ or_empty (data_groups r))
            (tr @ [GroupsList cid (Some q) (Inr r)]) = (res, tr')"
      by simp
    from Cons.IH [OF this] obtain new where
      "tr' = (tr @ [GroupsList cid (Some q) (Inr r)]) @ new"
      "member_calls new = []" "mutations new = []"
      by blast
    then show ?thesis
      by (intro exI [of _ "GroupsList cid (Some q) (Inr r) # new"]) simp
  qed
qed

lemma query_loop_success:
  "query_loop c cid qs resp gs tr = (Inr (resp', gs'), tr') \<Longrightarrow>
   \<exists>rs. length rs = length qs
     \<and> tr' = tr @ map2 (\<lambda>q r. GroupsList cid (Some q) (Inr r)) qs rs
     \<and> gs' = gs @ concat (map groups_of rs)
     \<and> resp' = (if qs = [] then resp else Some (last rs))"
proof (induction qs arbitrary: resp gs tr)
  case Nil
  then show ?case by simp
next
  case (Cons q qs)
  show ?case
  proof (cases "groups_list c tr cid (Some q)")
    case (Inl msg)
    with Cons.prems show ?thesis by simp
  next
    case (Inr r)
    with Cons.prems
    have "query_loop c cid qs (Some r) (gs @ or_empty (data_groups r))
            (tr @ [GroupsList cid (Some q) (Inr r)]) = (Inr (resp', gs'), tr')"
      by simp
    from Cons.IH [OF this] obtain rs where rs:
      "length rs = length qs"
      "tr' = (tr @ [GroupsList cid (Some q) (Inr r)]) @ map2 (\<lambda>q r. GroupsList cid (Some q) (Inr r)) qs rs"
      "gs' = (gs @ or_empty (data_groups r)) @ concat (map groups_of rs)"
      "resp' = (if qs = [] then Some r else Some (last rs))"
      by blast
    then show ?thesis
      by (intro exI [of _ "r # rs"]) (auto simp add: groups_of_def [symmetric])
  qed
qed


lemma read_config_trace:
  "read_config cfg = (res, tr) \<Longrightarrow>
   listing_calls tr = [] \<and> listing_responses tr = [] \<and> member_calls tr = []
   \<and> member_responses tr = [] \<and> mutations tr = []"
  by (auto simp add: read_config_def split: sum.splits if_splits)

lemma read_config_success:
  "read_config cfg = (Inr (cid, gc, qc), tr) \<Longrightarrow>
   tr = [] \<and> customerId cfg = Inr cid \<and> groups cfg = Inr gc \<and> query cfg = Inr qc
   \<and> (gc = None \<or> qc = None) \<and> qc \<noteq> Some []"
  by (auto simp add: read_config_def split: sum.splits if_splits)

lemma read_config_valid:
  "customerId cfg = Inr cid \<Longrightarrow> groups cfg = Inr gc \<Longrightarrow> query cfg = Inr qc \<Longrightarrow>
   gc = None \<or> qc = None \<Longrightarrow> qc \<noteq> Some [] \<Longrightarrow>
   read_config cfg = (Inr (cid, gc, qc), [])"
  by (auto simp add: read_config_def)

lemma fetch_groups_trace:
  "fetch_groups c cid qc tr = (res, tr') \<Longrightarrow>
   \<exists>new. tr' = tr @ new \<and> member_calls new = [] \<and> mutations new = []"
proof (cases qc)
  case None
  assume "fetch_groups c cid qc tr = (res, tr')"
  with None show ?thesis
    by (auto simp add: fetch_groups_def split: sum.splits)
next
  case (Some qs)
  assume "fetch_groups c cid qc tr = (res, tr')"
  with Some have "\<exists>res0. query_loop c cid qs None [] tr = (res0, tr')"
    by (auto simp add: fetch_groups_def split: prod.splits sum.splits)
  then show ?thesis
    using query_loop_trace by blast
qed


lemma fetch_groups_query_success:
  assumes "fetch_groups c cid (Some qs) tr = (Inr (resp, ggroups), tr')"
  shows "\<exists>rs. length rs = length qs
     \<and> tr' = tr @ map2 (\<lambda>q r. GroupsList cid (Some q) (Inr r)) qs rs
     \<and> ggroups = Some (concat (map groups_of rs))
     \<and> resp = (if qs = [] then None else Some (last rs))"
proof -
  from assms obtain gs where
    "query_loop c cid qs None [] tr = (Inr (resp, gs), tr')" "ggroups = Some gs"
    by (auto simp add: fetch_groups_def split: prod.splits sum.splits)
  with query_loop_success [of c cid qs None "[]" tr resp gs tr'] show ?thesis
    by auto
qed

lemma fetch_groups_plain_success:
  assumes "fetch_groups c cid None tr = (Inr (resp, ggroups), tr')"
  shows "\<exists>r. groups_list c tr cid None = Inr r \<and> resp = Some r \<and> ggroups = data_groups r
     \<and> tr' = tr @ [GroupsList cid None (Inr r)]"
  using assms by (auto simp add: fetch_groups_def split: sum.splits)

lemma or_empty_filter_groups:
  "or_empty (filter_groups gc ggroups) = kept_groups gc (or_empty ggroups)"
  by (cases gc; cases ggroups) (simp_all add: filter_groups_def or_empty_def kept_groups_def)

lemma includes_email_iff:
  "includes_email allowed g \<longleftrightarrow> (\<exists>a \<in> set allowed. g_email g = Some a)"
  by (cases "g_email g") (auto simp add: includes_email_def)

subsection \<open>The phases together\<close>

lemma collect_entities_phases:
  assumes "collect_entities k c cfg = (res, tr)"
  shows "(\<exists>e. read_config cfg = (Inl e, tr) \<and> res = Inl e)
       \<or> (\<exists>cid gc qc. read_config cfg = (Inr (cid, gc, qc), [])
            \<and> ((\<exists>e. fetch_groups c cid qc [] = (Inl e, tr) \<and> res = Inl e)
              \<or> (\<exists>resp ggroups trf. fetch_groups c cid qc [] = (Inr (resp, ggroups), trf)
                   \<and> groups_loop k c resp (or_empty (filter_groups gc ggroups)) [] trf = (res, tr))))"
proof (cases "read_config cfg")
  case (Pair rc tr0)
  show ?thesis
  proof (cases rc)
    case (Inl e)
    with Pair assms show ?thesis by (simp add: collect_entities_def)
  next
    case (Inr triple)
    obtain cid gc qc where triple: "triple = (cid, gc, qc)" by (cases triple)
    with Pair Inr read_config_success have tr0: "tr0 = []" by blast
    obtain rf trf where f: "fetch_groups c cid qc [] = (rf, trf)" by (cases "fetch_groups c cid qc []")
    show ?thesis
    proof (cases rf)
      case (Inl e)
      with Pair Inr triple tr0 f assms show ?thesis by (simp add: collect_entities_def)
    next
      case inner: (Inr pair)
      obtain resp ggroups where "pair = (resp, ggroups)" by (cases pair)
      with Pair Inr triple tr0 f inner assms show ?thesis by (simp add: collect_entities_def)
    qed
  qed
qed

lemma collect_entities_no_mutation:
  assumes c: "collect_entities k c cfg = (res, tr)"
  shows "mutations tr = []"
  using collect_entities_phases [OF c]
proof (elim disjE exE conjE)
  fix e assume "read_config cfg = (Inl e, tr)"
  then show ?thesis using read_config_trace by blast
next
  fix cid gc qc e assume "fetch_groups c cid qc [] = (Inl e, tr)"
  then show ?thesis using fetch_groups_trace by fastforce
next
  fix cid gc qc resp ggroups trf
  assume f: "fetch_groups c cid qc [] = (Inr (resp, ggroups), trf)"
    and g: "groups_loop k c resp (or_empty (filter_groups gc ggroups)) [] trf = (res, tr)"
  from fetch_groups_trace [OF f] have "mutations trf = []" by auto
  moreover from groups_loop_trace [OF g] obtain new where "tr = trf @ new" "mutations new = []"
    by blast
  ultimately show ?thesis by (simp add: mutations_append)
qed


lemma collect_entities_success:
  assumes "collect_entities k c cfg = (Inr es, tr)"
  shows "\<exists>cid gc qc r kept.
           read_config cfg = (Inr (cid, gc, qc), [])
         \<and> listing_responses tr \<noteq> [] \<and> r = last (listing_responses tr)
         \<and> listing_calls tr = (case qc of None \<Rightarrow> [(cid, None)] | Some qs \<Rightarrow> map (\<lambda>q. (cid, Some q)) qs)
         \<and> length (listing_responses tr) = length (listing_calls tr)
         \<and> kept = kept_groups gc (concat (map groups_of (listing_responses tr)))
         \<and> member_calls tr = map g_id kept
         \<and> length (member_responses tr) = length kept
         \<and> list_all (\<lambda>mr. emails_present (members_of mr)) (member_responses tr)
         \<and> es = concat (map2 (\<lambda>g mr. entities_of_group k r g (members_of mr)) kept (member_responses tr))"
proof -
  from collect_entities_phases [OF assms] obtain cid gc qc resp ggroups trf where
    rc: "read_config cfg = (Inr (cid, gc, qc), [])"
    and f: "fetch_groups c cid qc [] = (Inr (resp, ggroups), trf)"
    and g: "groups_loop k c resp (or_empty (filter_groups gc ggroups)) [] trf = (Inr es, tr)"
    by auto
  from read_config_success [OF rc] have qc: "qc \<noteq> Some []" by simp
  have "\<exists>r. resp = Some r \<and> listing_responses trf \<noteq> [] \<and> r = last (listing_responses trf)
      \<and> listing_calls trf = (case qc of None \<Rightarrow> [(cid, None)] | Some qs \<Rightarrow> map (\<lambda>q. (cid, Some q)) qs)
      \<and> length (listing_responses trf) = length (listing_calls trf)
      \<and> or_empty ggroups = concat (map groups_of (listing_responses trf))
      \<and> member_calls trf = [] \<and> member_responses trf = []"
  proof (cases qc)
    case None
    with fetch_groups_plain_success [of c cid "[]" resp ggroups trf] f show ?thesis
      by (auto simp add: groups_of_def)
  next
    case (Some qs)
    with qc have ne: "qs \<noteq> []" by simp
    from Some f fetch_groups_query_success [of c cid qs "[]" resp ggroups trf]
    obtain rs where rs: "length rs = length qs"
      "trf = map2 (\<lambda>q r. GroupsList cid (Some q) (Inr r)) qs rs"
      "ggroups = Some (concat (map groups_of rs))" "resp = Some (last rs)"
      using ne by auto
    from rs(1) ne have "rs \<noteq> []" by auto
    with rs Some show ?thesis
      by (simp add: listing_calls_map2 listing_responses_map2 member_calls_map2
            member_responses_map2 or_empty_def)
  qed
  then obtain r where r: "resp = Some r" "listing_responses trf \<noteq> []"
    "r = last (listing_responses trf)"
    "listing_calls trf = (case qc of None \<Rightarrow> [(cid, None)] | Some qs \<Rightarrow> map (\<lambda>q. (cid, Some q)) qs)"
    "length (listing_responses trf) = length (listing_calls trf)"
    "or_empty ggroups = concat (map groups_of (listing_responses trf))"
    "member_calls trf = []" "member_responses trf = []"
    by blast
  let ?kept = "or_empty (filter_groups gc ggroups)"
  from g r(1) have g': "groups_loop k c (Some r) ?kept [] trf = (Inr es, tr)" by simp
  from groups_loop_trace [OF g'] obtain new where new: "tr = trf @ new"
    "listing_calls new = []" "listing_responses new = []"
    by blast
  from groups_loop_success [OF g'] new(1) have loop:
    "member_calls new = map g_id ?kept"
    "length (member_responses new) = length ?kept"
    "list_all (\<lambda>mr. emails_present (members_of mr)) (member_responses new)"
    "es = concat (map2 (\<lambda>g mr. entities_of_group k r g (members_of mr)) ?kept (member_responses new))"
    by auto
  have lr: "listing_responses tr = listing_responses trf" "listing_calls tr = listing_calls trf"
    "member_calls tr = member_calls new" "member_responses tr = member_responses new"
    using new r(7,8)
    by (simp_all add: listing_responses_append listing_calls_append member_calls_append
          member_responses_append)
  have "read_config cfg = (Inr (cid, gc, qc), [])
      \<and> listing_responses tr \<noteq> [] \<and> r = last (listing_responses tr)
      \<and> listing_calls tr = (case qc of None \<Rightarrow> [(cid, None)] | Some qs \<Rightarrow> map (\<lambda>q. (cid, Some q)) qs)
      \<and> length (listing_responses tr) = length (listing_calls tr)
      \<and> ?kept = kept_groups gc (concat (map groups_of (listing_responses tr)))
      \<and> member_calls tr = map g_id ?kept
      \<and> length (member_responses tr) = length ?kept
      \<and> list_all (\<lambda>mr. emails_present (members_of mr)) (member_responses tr)
      \<and> es = concat (map2 (\<lambda>g mr. entities_of_group k r g (members_of mr)) ?kept (member_responses tr))"
    using rc r(2-6) loop by (simp add: lr or_empty_filter_groups)
  then show ?thesis by blast
qed

lemma run_trace_after_fetch:
  assumes "connection p = Some conn" and "directoryApiClient p = Some c"
    and "read_config (config_of p) = (Inr (cid, gc, qc), [])"
    and "fetch_groups c cid qc [] = (Inr (resp, ggroups), trf)"
  shows "\<exists>new. snd (run k p) = trf @ new \<and> listing_calls new = [] \<and> listing_responses new = []"
proof -
  obtain res tr where g: "groups_loop k c resp (or_empty (filter_groups gc ggroups)) [] trf = (res, tr)"
    by (cases "groups_loop k c resp (or_empty (filter_groups gc ggroups)) [] trf")
  from groups_loop_trace [OF g] obtain new where new: "tr = trf @ new"
    "listing_calls new = []" "listing_responses new = []"
    by blast
  have c: "collect_entities k c (config_of p) = (res, tr)"
    using assms(3,4) g by (simp add: collect_entities_def)
  have "snd (run k p) = tr \<or> (\<exists>m r. snd (run k p) = tr @ [ApplyMutation m r])"
    using assms(1,2) c by (auto simp add: run_def split: sum.splits option.splits)
  then show ?thesis
  proof
    assume "snd (run k p) = tr"
    with new show ?thesis by blast
  next
    assume "\<exists>m r. snd (run k p) = tr @ [ApplyMutation m r]"
    then obtain m r where "snd (run k p) = trf @ (new @ [ApplyMutation m r])"
      using new(1) by auto
    moreover have "listing_calls (new @ [ApplyMutation m r]) = []"
      "listing_responses (new @ [ApplyMutation m r]) = []"
      using new(2,3) by (simp_all add: listing_calls_append listing_responses_append)
    ultimately show ?thesis by blast
  qed
qed

lemma run_mutations:
  assumes "connection p = Some conn" and "directoryApiClient p = Some c"
    and "collect_entities k c (config_of p) = (Inr es, tr)"
  shows "mutations (snd (run k p)) = (if es = [] then [] else [full_mutation es])"
  using assms collect_entities_no_mutation [OF assms(3)]
  by (simp add: run_def mutations_append split: option.splits)

subsection \<open>Entity sequences\<close>

lemma entities_of_group_groups:
  "Group ge \<in> set (entities_of_group k r g ms) \<longleftrightarrow> ge = (group_entity k r g)\<lparr>ge_members := member_names ms\<rparr>"
  by (auto simp add: entities_of_group_def)


lemma concat_map2_source:
  assumes "e \<in> set (concat (map2 f xs ys))"
  shows "\<exists>x \<in> set xs. \<exists>y \<in> set ys. e \<in> set (f x y)"
  using assms by (auto dest: set_zip_leftD set_zip_rightD)

lemma group_entities_append: "group_entities (a @ b) = group_entities a @ group_entities b"
  by (induction a rule: group_entities.induct) auto

lemma group_entities_users: "group_entities (map User us) = []"
  by (induction us) auto

lemma group_entities_of_group:
  "group_entities (entities_of_group k r g ms) = [(group_entity k r g)\<lparr>ge_members := member_names ms\<rparr>]"
  using group_entities_users [of "map (\<lambda>m. user_entity r (group_entity k r g) m (the (m_email m))) ms"]
  by (simp add: entities_of_group_def group_entities_append comp_def)

lemma group_entities_concat:
  "length mrs = length gs \<Longrightarrow>
   group_entities (concat (map2 (\<lambda>g mr. entities_of_group k r g (members_of mr)) gs mrs))
     = map2 (\<lambda>g mr. (group_entity k r g)\<lparr>ge_members := member_names (members_of mr)\<rparr>) gs mrs"
  by (induction gs mrs rule: list_induct2')
     (simp_all add: group_entities_append group_entities_of_group)

lemma map2_forget_members:
  "length mrs = length gs \<Longrightarrow>
   map (\<lambda>ge. ge\<lparr>ge_members := []\<rparr>)
     (map2 (\<lambda>g mr. (group_entity k r g)\<lparr>ge_members := member_names (members_of mr)\<rparr>) gs mrs)
   = map (group_entity k r) gs"
  by (induction gs mrs rule: list_induct2') (simp_all add: group_entity_def)

section \<open>The claims\<close>

text \<open>
  Claim C1. When the part of \<open>run\<close> that builds the entities completes with the sequence
  \<open>es\<close>: if \<open>es\<close> is not empty, the sink is called exactly once in the run, with a mutation
  of type \<open>full\<close> whose entries are the entities of \<open>es\<close>, each once and in order, each
  paired with the value of its own location annotation; if \<open>es\<close> is empty, the sink is
  never called.
\<close>

theorem sink_called_once_with_all_entities:
  assumes "connection p = Some conn" and "directoryApiClient p = Some c"
    and "collect_entities k c (config_of p) = (Inr es, tr)"
  shows "(es \<noteq> [] \<longrightarrow>
            mutations (snd (run k p)) = [full_mutation es]
          \<and> mutation_type (full_mutation es) = ''full''
          \<and> map entity (mutation_entities (full_mutation es)) = es
          \<and> map locationKey (mutation_entities (full_mutation es))
              = map (\<lambda>e. map_of (annotations e) ANNOTATION_LOCATION) es)
       \<and> (es = [] \<longrightarrow> mutations (snd (run k p)) = [])"
proof -
  have "mutations tr = []"
    using assms(3) by (rule collect_entities_no_mutation)
  then show ?thesis
    using assms
    by (simp add: run_def mutations_append full_mutation_def comp_def split: option.splits)
qed

theorem sink_called_once_with_all_entities_witness:
  "mutations (snd (run example_kebabCase (example_provider config_all example_client)))
     = [full_mutation (example_entities ''ggroups:https://dir/groups'')]
   \<and> mutation_type (full_mutation (example_entities ''ggroups:https://dir/groups'')) = ''full''
   \<and> map entity (mutation_entities (full_mutation (example_entities ''ggroups:https://dir/groups'')))
       = example_entities ''ggroups:https://dir/groups''
   \<and> map locationKey (mutation_entities (full_mutation (example_entities ''ggroups:https://dir/groups'')))
       = [Some ''ggroups:https://dir/groups'', Some ''ggroups:https://dir/groups'',
          Some ''ggroups:https://dir/groups'']
   \<and> mutations (snd (run example_kebabCase (example_provider config_nothing_allowed example_client))) = []"
proof -
  let ?p = "example_provider config_all example_client"
  let ?q = "example_provider config_nothing_allowed example_client"
  let ?es = "example_entities ''ggroups:https://dir/groups''"
  have conn: "connection ?p = Some (\<lambda>tr m. None)" "connection ?q = Some (\<lambda>tr m. None)"
    and client: "directoryApiClient ?p = Some example_client" "directoryApiClient ?q = Some example_client"
    by (simp_all add: example_provider_def)
  have "fst (collect_entities example_kebabCase example_client (config_of ?p)) = Inr ?es"
    by (simp add: all_defs)
  then have full: "collect_entities example_kebabCase example_client (config_of ?p)
      = (Inr ?es, snd (collect_entities example_kebabCase example_client (config_of ?p)))"
    by (metis prod.collapse)
  have "fst (collect_entities example_kebabCase example_client (config_of ?q)) = Inr []"
    by (simp add: all_defs)
  then have none: "collect_entities example_kebabCase example_client (config_of ?q)
      = (Inr [], snd (collect_entities example_kebabCase example_client (config_of ?q)))"
    by (metis prod.collapse)
  have ne: "?es \<noteq> []" by (simp add: example_entities_def)
  from sink_called_once_with_all_entities [OF conn(1) client(1) full]
       sink_called_once_with_all_entities [OF conn(2) client(2) none] ne
  show ?thesis
    by (simp add: example_entities_def full_mutation_def user_jdoe_def entity_one_def entity_two_def)
qed



text \<open>
  Claim C3, evaluated on a configuration with the two query expressions \<open>a\<close> and \<open>b\<close>.
  The first group is returned by the call for \<open>a\<close> only, whose resolved URL ends in
  \<open>query=a\<close>; yet its entity, and the user of that group, carry the URL of the call for
  \<open>b\<close> in both annotations: \<open>groupsResponse\<close> is overwritten by each listing call and
  read only after the last.
\<close>

theorem multi_query_annotations_use_last_url:
  "run example_kebabCase (example_provider (config_query [''a'', ''b'']) example_client)
     = (Inr (),
        [GroupsList ''C1'' (Some ''a'')
           (Inr \<lparr> data_groups = Some [group_one], request_responseURL = ''https://dir/groups?query=a'' \<rparr>),
         GroupsList ''C1'' (Some ''b'')
           (Inr \<lparr> data_groups = Some [group_two], request_responseURL = ''https://dir/groups?query=b'' \<rparr>),
         MembersList (Some ''g1'') (Inr \<lparr> data_members = Some [member_jdoe] \<rparr>), Delay 1000,
         MembersList (Some ''g2'') (Inr \<lparr> data_members = None \<rparr>), Delay 1000,
         ApplyMutation (full_mutation (example_entities ''ggroups:https://dir/groups?query=b'')) None])
   \<and> annotations (Group (entity_one ''ggroups:https://dir/groups?query=b''))
       = [(ANNOTATION_LOCATION, ''ggroups:https://dir/groups?query=b''),
          (ANNOTATION_ORIGIN_LOCATION, ''ggroups:https://dir/groups?query=b'')]"
  by (simp add: all_defs)

text \<open>
  Claim C4. With a non-empty query list (and hence no allow-list), when the fetch
  completes: the listing calls of the run are one per query expression, in the order of
  the list, each with the customer and that expression as the filter; each call has one
  response; and the group sequence is the concatenation of the groups of these responses
  in call order, a response without the field adding nothing and nothing being removed.
\<close>

theorem one_listing_call_per_query:
  assumes "connection p = Some conn" and "directoryApiClient p = Some c"
    and "customerId (config_of p) = Inr cid" and "groups (config_of p) = Inr None"
    and "query (config_of p) = Inr (Some qs)" and "qs \<noteq> []"
    and "fetch_groups c cid (Some qs) [] = (Inr (resp, ggroups), tr)"
  shows "listing_calls (snd (run k p)) = map (\<lambda>q. (cid, Some q)) qs
       \<and> listing_responses (snd (run k p)) = listing_responses tr
       \<and> length (listing_responses tr) = length qs
       \<and> tr = map2 (\<lambda>q r. GroupsList cid (Some q) (Inr r)) qs (listing_responses tr)
       \<and> ggroups = Some (concat (map groups_of (listing_responses tr)))"
proof -
  from fetch_groups_query_success [OF assms(7)] obtain rs where rs:
    "length rs = length qs" "tr = map2 (\<lambda>q r. GroupsList cid (Some q) (Inr r)) qs rs"
    "ggroups = Some (concat (map groups_of rs))"
    by auto
  then have tr: "listing_responses tr = rs" "listing_calls tr = map (\<lambda>q. (cid, Some q)) qs"
    by (simp_all add: listing_responses_map2 listing_calls_map2)
  have "read_config (config_of p) = (Inr (cid, None, Some qs), [])"
    using assms(3-6) by (simp add: read_config_valid)
  from run_trace_after_fetch [OF assms(1,2) this assms(7), where k = k] obtain new where
    "snd (run k p) = tr @ new" "listing_calls new = []" "listing_responses new = []"
    by blast
  then show ?thesis
    using rs tr by (simp add: listing_calls_append listing_responses_append)
qed

theorem one_listing_call_per_query_witness:
  "listing_calls (snd (run example_kebabCase (example_provider (config_query [''a'', ''c'']) example_client)))
     = [(''C1'', Some ''a''), (''C1'', Some ''c'')]
   \<and> fst (fetch_groups example_client ''C1'' (Some [''a'', ''c'']) [])
     = Inr (Some \<lparr> data_groups = Some [group_one, group_two],
                    request_responseURL = ''https://dir/groups?query=c'' \<rparr>,
            Some [group_one, group_one, group_two])"
proof -
  let ?p = "example_provider (config_query [''a'', ''c'']) example_client"
  let ?f = "fetch_groups example_client ''C1'' (Some [''a'', ''c'']) []"
  let ?ra = "\<lparr> data_groups = Some [group_one], request_responseURL = ''https://dir/groups?query=a'' \<rparr>"
  let ?rc = "\<lparr> data_groups = Some [group_one, group_two], request_responseURL = ''https://dir/groups?query=c'' \<rparr>"
  have f: "?f = (Inr (Some ?rc, Some [group_one, group_one, group_two]),
                 [GroupsList ''C1'' (Some ''a'') (Inr ?ra), GroupsList ''C1'' (Some ''c'') (Inr ?rc)])"
    by (simp add: fetch_groups_def example_client_def example_listing_def or_empty_def)
  have h: "connection ?p = Some (\<lambda>tr m. None)" "directoryApiClient ?p = Some example_client"
    "customerId (config_of ?p) = Inr ''C1''" "groups (config_of ?p) = Inr None"
    "query (config_of ?p) = Inr (Some [''a'', ''c''])" "[''a'', ''c''] \<noteq> []"
    by (simp_all add: example_provider_def config_query_def)
  from one_listing_call_per_query [OF h f, of example_kebabCase] f
  show ?thesis by simp
qed

text \<open>
  Claim C5. When the allow-list and the query list are both set, or the query list is set
  and empty, \<open>run\<close> throws and the run contains no directory call (and no call of the
  sink).
\<close>

theorem invalid_filters_fail_before_any_call:
  assumes "groups (config_of p) = Inr (Some allowed) \<and> query (config_of p) = Inr (Some queries)
           \<or> query (config_of p) = Inr (Some [])"
  shows "(\<exists>e. fst (run k p) = Inl e) \<and> listing_calls (snd (run k p)) = []
         \<and> member_calls (snd (run k p)) = [] \<and> mutations (snd (run k p)) = []"
proof -
  have "\<exists>e tr. read_config (config_of p) = (Inl e, tr)"
    using assms by (auto simp add: read_config_def split: sum.splits)
  then obtain e tr where r: "read_config (config_of p) = (Inl e, tr)" by blast
  from read_config_trace [OF r]
  have "listing_calls tr = []" "member_calls tr = []" "mutations tr = []" by simp_all
  with r show ?thesis
    by (simp add: run_def collect_entities_def split: option.splits)
qed

theorem invalid_filters_fail_before_any_call_witness:
  "fst (run example_kebabCase (example_provider config_both example_client)) = Inl GroupsAndQueryBothSet
   \<and> listing_calls (snd (run example_kebabCase (example_provider config_both example_client))) = []
   \<and> member_calls (snd (run example_kebabCase (example_provider config_both example_client))) = []
   \<and> fst (run example_kebabCase (example_provider config_no_query example_client)) = Inl QueryEmpty
   \<and> listing_calls (snd (run example_kebabCase (example_provider config_no_query example_client))) = []
   \<and> member_calls (snd (run example_kebabCase (example_provider config_no_query example_client))) = []"
proof -
  let ?p = "example_provider config_both example_client"
  let ?q = "example_provider config_no_query example_client"
  have both: "groups (config_of ?p) = Inr (Some [''g1@x.com'']) \<and> query (config_of ?p) = Inr (Some [''a''])
              \<or> query (config_of ?p) = Inr (Some [])"
    by (simp add: example_provider_def config_both_def)
  have empty: "groups (config_of ?q) = Inr (Some []) \<and> query (config_of ?q) = Inr (Some [])
              \<or> query (config_of ?q) = Inr (Some [])"
    by (simp add: example_provider_def config_no_query_def)
  have "fst (run example_kebabCase ?p) = Inl GroupsAndQueryBothSet"
    "fst (run example_kebabCase ?q) = Inl QueryEmpty"
    by (simp_all add: all_defs)
  with invalid_filters_fail_before_any_call [OF both, of example_kebabCase]
       invalid_filters_fail_before_any_call [OF empty, of example_kebabCase]
  show ?thesis by simp
qed

text \<open>
  Claim C6. With an allow-list, the filter keeps exactly the fetched groups whose address
  is in the list, in their order. In a run that builds its entities, the member listings
  are made for these groups only, the entities are those of these groups only, every
  group entity has an address of the allow-list, and the mutation handed to the sink holds
  just these entities.
\<close>

theorem allow_list_keeps_only_listed_groups:
  assumes "connection p = Some conn" and "directoryApiClient p = Some c"
    and "groups (config_of p) = Inr (Some allowed)"
    and "collect_entities k c (config_of p) = (Inr es, tr)"
  shows "filter_groups (Some allowed) (Some fetched)
           = Some (filter (\<lambda>g. \<exists>a \<in> set allowed. g_email g = Some a) fetched)
       \<and> (\<exists>r kept. listing_responses tr = [r]
             \<and> kept = filter (\<lambda>g. \<exists>a \<in> set allowed. g_email g = Some a) (groups_of r)
             \<and> member_calls tr = map g_id kept
             \<and> length (member_responses tr) = length kept
             \<and> es = concat (map2 (\<lambda>g mr. entities_of_group k r g (members_of mr)) kept (member_responses tr)))
       \<and> (\<forall>ge. Group ge \<in> set es \<longrightarrow> (\<exists>a \<in> set allowed. ge_email ge = Some a))
       \<and> mutations (snd (run k p)) = (if es = [] then [] else [full_mutation es])"
proof -
  have incl: "includes_email allowed = (\<lambda>g. \<exists>a \<in> set allowed. g_email g = Some a)"
    by (rule ext) (rule includes_email_iff)
  have first: "filter_groups (Some allowed) (Some fetched)
           = Some (filter (\<lambda>g. \<exists>a \<in> set allowed. g_email g = Some a) fetched)"
    by (simp add: filter_groups_def incl)
  from collect_entities_success [OF assms(4)] obtain cid gc qc r kept where m:
    "read_config (config_of p) = (Inr (cid, gc, qc), [])"
    "listing_responses tr \<noteq> []" "r = last (listing_responses tr)"
    "listing_calls tr = (case qc of None \<Rightarrow> [(cid, None)] | Some qs \<Rightarrow> map (\<lambda>q. (cid, Some q)) qs)"
    "length (listing_responses tr) = length (listing_calls tr)"
    "kept = kept_groups gc (concat (map groups_of (listing_responses tr)))"
    "member_calls tr = map g_id kept"
    "length (member_responses tr) = length kept"
    "es = concat (map2 (\<lambda>g mr. entities_of_group k r g (members_of mr)) kept (member_responses tr))"
    by blast
  from read_config_success [OF m(1)] assms(3) have gc: "gc = Some allowed" and qc: "qc = None"
    by auto
  from m(4,5) qc have "length (listing_responses tr) = 1" by simp
  with m(3) have single: "listing_responses tr = [r]"
    by (cases "listing_responses tr") auto
  with m(6) gc have kept: "kept = filter (\<lambda>g. \<exists>a \<in> set allowed. g_email g = Some a) (groups_of r)"
    by (simp add: kept_groups_def incl)
  have second: "\<exists>r kept. listing_responses tr = [r]
             \<and> kept = filter (\<lambda>g. \<exists>a \<in> set allowed. g_email g = Some a) (groups_of r)
             \<and> member_calls tr = map g_id kept
             \<and> length (member_responses tr) = length kept
             \<and> es = concat (map2 (\<lambda>g mr. entities_of_group k r g (members_of mr)) kept (member_responses tr))"
    using single kept m(7-9) by blast
  have third: "\<forall>ge. Group ge \<in> set es \<longrightarrow> (\<exists>a \<in> set allowed. ge_email ge = Some a)"
  proof (intro allI impI)
    fix ge assume "Group ge \<in> set es"
    with m(9) obtain g mr where "g \<in> set kept"
      "Group ge \<in> set (entities_of_group k r g (members_of mr))"
      using concat_map2_source [of "Group ge" "\<lambda>g mr. entities_of_group k r g (members_of mr)" kept "member_responses tr"]
      by blast
    then have "\<exists>a \<in> set allowed. g_email g = Some a" "ge_email ge = g_email g"
      using kept by (auto simp add: entities_of_group_groups group_entity_def)
    then show "\<exists>a \<in> set allowed. ge_email ge = Some a" by simp
  qed
  from first second third run_mutations [OF assms(1,2,4)] show ?thesis by blast
qed

theorem allow_list_keeps_only_listed_groups_witness:
  "filter_groups (Some [''g1@x.com'']) (Some [group_one, group_two]) = Some [group_one]
   \<and> mutations (snd (run example_kebabCase (example_provider config_allow example_client)))
       = [full_mutation [User (user_jdoe ''ggroups:https://dir/groups''),
                         Group (entity_one ''ggroups:https://dir/groups'')]]"
proof -
  let ?p = "example_provider config_allow example_client"
  let ?c = "collect_entities example_kebabCase example_client (config_of ?p)"
  let ?es = "[User (user_jdoe ''ggroups:https://dir/groups''), Group (entity_one ''ggroups:https://dir/groups'')]"
  have "fst ?c = Inr ?es"
    by (simp add: all_defs)
  then have full: "?c = (Inr ?es, snd ?c)"
    by (metis prod.collapse)
  have h: "connection ?p = Some (\<lambda>tr m. None)" "directoryApiClient ?p = Some example_client"
    "groups (config_of ?p) = Inr (Some [''g1@x.com''])"
    by (simp_all add: example_provider_def config_allow_def)
  from allow_list_keeps_only_listed_groups [OF h full, of "[group_one, group_two]"]
  show ?thesis
    by (simp add: group_one_def group_two_def)
qed

text \<open>
  Claim C7 as stated fails: without allow-list and query list, with two groups listed and
  no failing member listing, a member record without an address makes \<open>split\<close> throw; the
  run ends with a \<open>TypeError\<close> after the first member listing and no group entity reaches
  the sink.
\<close>

theorem member_without_address_aborts_run:
  "run example_kebabCase (example_provider config_all customer_member_client) =
     (Inl TypeError,
      [GroupsList ''C1'' None
         (Inr \<lparr> data_groups = Some [group_one, group_two], request_responseURL = ''https://dir/groups'' \<rparr>),
       MembersList (Some ''g1'') (Inr \<lparr> data_members = Some [member_jdoe, member_customer] \<rparr>)])"
  by (simp add: all_defs)

text \<open>
  Claim C7, amended: without allow-list and query list, when the listing returns the
  groups \<open>gs\<close>, no member listing made in the run fails and every member record fetched in
  the run has an address, the run makes exactly one listing call, one member listing per
  group of \<open>gs\<close>, and builds exactly one group entity per group of \<open>gs\<close>, in order (each is
  the entity of its group, up to the member names), which the sink receives.
\<close>

theorem every_listed_group_becomes_a_group_entity:
  assumes "connection p = Some conn" and "directoryApiClient p = Some c"
    and "customerId (config_of p) = Inr cid" and "groups (config_of p) = Inr None"
    and "query (config_of p) = Inr None"
    and "groups_list c [] cid None = Inr r" and "data_groups r = Some gs"
    and "\<forall>key res. MembersList key res \<in> set (snd (run k p)) \<longrightarrow>
           (\<exists>mr. res = Inr mr \<and> emails_present (members_of mr))"
  shows "listing_calls (snd (run k p)) = [(cid, None)]
       \<and> member_calls (snd (run k p)) = map g_id gs
       \<and> (\<exists>es tr. collect_entities k c (config_of p) = (Inr es, tr)
             \<and> length (group_entities es) = length gs
             \<and> map (\<lambda>ge. ge\<lparr>ge_members := []\<rparr>) (group_entities es) = map (group_entity k r) gs
             \<and> mutations (snd (run k p)) = (if gs = [] then [] else [full_mutation es]))"
proof -
  let ?trf = "[GroupsList cid None (Inr r)]"
  have rc: "read_config (config_of p) = (Inr (cid, None, None), [])"
    using assms(3-5) by (simp add: read_config_valid)
  have f: "fetch_groups c cid None [] = (Inr (Some r, Some gs), ?trf)"
    using assms(6,7) by (simp add: fetch_groups_def)
  from run_trace_after_fetch [OF assms(1,2) rc f, where k = k] have calls: "listing_calls (snd (run k p)) = [(cid, None)]"
    by (auto simp add: listing_calls_append)
  obtain res tr where g: "groups_loop k c (Some r) gs [] ?trf = (res, tr)"
    by (cases "groups_loop k c (Some r) gs [] ?trf")
  with rc f have c: "collect_entities k c (config_of p) = (res, tr)"
    by (simp add: collect_entities_def filter_groups_def or_empty_def)
  have sub: "set tr \<subseteq> set (snd (run k p))"
    using assms(1,2) c by (auto simp add: run_def split: sum.splits option.splits if_splits)
  have "\<exists>es. res = Inr es"
  proof (cases res)
    case (Inl e)
    with g groups_loop_failure [of k c r gs "[]" ?trf e tr] obtain new key ans where
      "tr = ?trf @ new" "MembersList key ans \<in> set new"
      "\<forall>mr. ans = Inr mr \<longrightarrow> \<not> emails_present (members_of mr)"
      by blast
    with sub assms(8) show ?thesis by fastforce
  next
    case (Inr es)
    then show ?thesis by blast
  qed
  then obtain es where res: "res = Inr es" by blast
  from g res groups_loop_success [of k c r gs "[]" ?trf es tr] obtain new where new:
    "tr = ?trf @ new"
    "member_calls new = map g_id gs"
    "length (member_responses new) = length gs"
    "es = concat (map2 (\<lambda>g mr. entities_of_group k r g (members_of mr)) gs (member_responses new))"
    by auto
  from new have ge: "group_entities es =
      map2 (\<lambda>g mr. (group_entity k r g)\<lparr>ge_members := member_names (members_of mr)\<rparr>) gs (member_responses new)"
    by (simp add: group_entities_concat)
  then have len: "length (group_entities es) = length gs"
    using new(3) by simp
  have shape: "map (\<lambda>ge. ge\<lparr>ge_members := []\<rparr>) (group_entities es) = map (group_entity k r) gs"
    unfolding ge using new(3) by (rule map2_forget_members)
  have "es = [] \<longleftrightarrow> gs = []"
  proof
    assume "es = []"
    with len show "gs = []" by simp
  next
    assume "gs = []"
    with new(4) show "es = []" by simp
  qed
  with run_mutations [OF assms(1,2)] c res
  have mut: "mutations (snd (run k p)) = (if gs = [] then [] else [full_mutation es])"
    by simp
  have "snd (run k p) = tr \<or> (\<exists>m a. snd (run k p) = tr @ [ApplyMutation m a])"
    using assms(1,2) c res by (auto simp add: run_def split: option.splits)
  with new(1,2) have mc: "member_calls (snd (run k p)) = map g_id gs"
    by (auto simp add: member_calls_append)
  from calls mc c res len shape mut show ?thesis by blast
qed

theorem every_listed_group_becomes_a_group_entity_witness:
  "listing_calls (snd (run example_kebabCase (example_provider config_all picky_client))) = [(''C1'', None)]
   \<and> member_calls (snd (run example_kebabCase (example_provider config_all picky_client)))
       = [Some ''g1'', Some ''g2'']
   \<and> fst (collect_entities example_kebabCase picky_client config_all)
       = Inr (example_entities ''ggroups:https://dir/groups'')
   \<and> length (group_entities (example_entities ''ggroups:https://dir/groups'')) = 2
   \<and> mutations (snd (run example_kebabCase (example_provider config_all picky_client)))
       = [full_mutation (example_entities ''ggroups:https://dir/groups'')]"
proof -
  let ?p = "example_provider config_all picky_client"
  let ?r = "\<lparr> data_groups = Some [group_one, group_two], request_responseURL = ''https://dir/groups'' \<rparr>"
  have cfg: "config_of ?p = config_all" by (simp add: example_provider_def)
  have h: "connection ?p = Some (\<lambda>tr m. None)" "directoryApiClient ?p = Some picky_client"
    "customerId (config_of ?p) = Inr ''C1''" "groups (config_of ?p) = Inr None"
    "query (config_of ?p) = Inr None"
    "groups_list picky_client [] ''C1'' None = Inr ?r" "data_groups ?r = Some [group_one, group_two]"
    by (simp_all add: example_provider_def config_all_def picky_client_def example_listing_def)
  have tr: "snd (run example_kebabCase ?p) =
     [GroupsList ''C1'' None (Inr ?r),
      MembersList (Some ''g1'') (Inr \<lparr> data_members = Some [member_jdoe] \<rparr>), Delay 1000,
      MembersList (Some ''g2'') (Inr \<lparr> data_members = None \<rparr>), Delay 1000,
      ApplyMutation (full_mutation (example_entities ''ggroups:https://dir/groups'')) None]"
    by (simp add: all_defs)
  have members: "\<forall>key res. MembersList key res \<in> set (snd (run example_kebabCase ?p)) \<longrightarrow>
           (\<exists>mr. res = Inr mr \<and> emails_present (members_of mr))"
    unfolding tr
    by (auto simp add: emails_present_def members_of_def or_empty_def member_jdoe_def)
  have es: "fst (collect_entities example_kebabCase picky_client (config_of ?p))
          = Inr (example_entities ''ggroups:https://dir/groups'')"
    by (simp add: all_defs)
  from every_listed_group_becomes_a_group_entity [OF h members] es cfg
  show ?thesis by (auto simp add: group_one_def group_two_def)
qed

text \<open>
  Claim C8. A run that throws anything but a rejection by the sink itself (a lifecycle
  or configuration error, a failed directory call at any point, a \<open>TypeError\<close>) never
  calls the sink: what was built before the failure is dropped.
\<close>

theorem failed_run_never_invokes_sink:
  "fst (run k p) = Inl e \<Longrightarrow> (\<forall>msg. e \<noteq> SinkError msg) \<Longrightarrow> mutations (snd (run k p)) = []"
  by (auto simp add: run_def mutations_append dest: collect_entities_no_mutation
           split: option.splits prod.splits sum.splits if_splits)

theorem failed_run_never_invokes_sink_witness:
  "fst (run example_kebabCase (example_provider config_all failing_client)) = Inl (ApiError ''quota exceeded'')
   \<and> member_calls (snd (run example_kebabCase (example_provider config_all failing_client)))
       = [Some ''g1'', Some ''g2'']
   \<and> mutations (snd (run example_kebabCase (example_provider config_all failing_client))) = []"
proof -
  let ?p = "example_provider config_all failing_client"
  have e: "fst (run example_kebabCase ?p) = Inl (ApiError ''quota exceeded'')"
    and m: "member_calls (snd (run example_kebabCase ?p)) = [Some ''g1'', Some ''g2'']"
    by (simp_all add: all_defs)
  have "\<forall>msg. ApiError ''quota exceeded'' \<noteq> SinkError msg" by simp
  from failed_run_never_invokes_sink [OF e this] e m show ?thesis by simp
qed

text \<open>
  Claim C9. Without a query list, when the one listing response has no \<open>groups\<close> field,
  \<open>run\<close> returns normally; the listing call is all that happens: no member listing, no
  call of the sink.
\<close>

theorem missing_groups_field_syncs_nothing:
  assumes "connection p = Some conn" and "directoryApiClient p = Some c"
    and "customerId (config_of p) = Inr cid" and "groups (config_of p) = Inr gc"
    and "query (config_of p) = Inr None"
    and "groups_list c [] cid None = Inr r" and "data_groups r = None"
  shows "run k p = (Inr (), [GroupsList cid None (Inr r)])"
proof -
  have "read_config (config_of p) = (Inr (cid, gc, None), [])"
    using assms(3-5) by (simp add: read_config_valid)
  moreover have "fetch_groups c cid None [] = (Inr (Some r, None), [GroupsList cid None (Inr r)])"
    using assms(6,7) by (simp add: fetch_groups_def)
  moreover have "or_empty (filter_groups gc None) = []"
    by (simp add: filter_groups_def or_empty_def split: option.splits)
  ultimately show ?thesis
    using assms(1,2) by (simp add: run_def collect_entities_def)
qed

theorem missing_groups_field_syncs_nothing_witness:
  "run example_kebabCase (example_provider config_allow no_groups_client)
     = (Inr (), [GroupsList ''C1'' None
                   (Inr \<lparr> data_groups = None, request_responseURL = ''https://dir/groups'' \<rparr>)])"
proof -
  let ?p = "example_provider config_allow no_groups_client"
  let ?r = "\<lparr> data_groups = None, request_responseURL = ''https://dir/groups'' \<rparr>"
  have h: "connection ?p = Some (\<lambda>tr m. None)" "directoryApiClient ?p = Some no_groups_client"
    "customerId (config_of ?p) = Inr ''C1''" "groups (config_of ?p) = Inr (Some [''g1@x.com''])"
    "query (config_of ?p) = Inr None"
    "groups_list no_groups_client [] ''C1'' None = Inr ?r" "data_groups ?r = None"
    by (simp_all add: example_provider_def config_allow_def no_groups_client_def)
  from missing_groups_field_syncs_nothing [OF h] show ?thesis .
qed

text \<open>
  Claim C10. With an allow-list that is present and empty, the filter removes every
  fetched group, no member listing is made, no entity is built and the sink is never
  called.
\<close>

theorem empty_allow_list_syncs_nothing:
  assumes "groups (config_of p) = Inr (Some [])"
  shows "or_empty (filter_groups (Some []) fetched) = []
       \<and> member_calls (snd (run k p)) = []
       \<and> mutations (snd (run k p)) = []
       \<and> (directoryApiClient p = Some c \<longrightarrow>
            fst (collect_entities k c (config_of p)) = Inr [] \<or> (\<exists>e. fst (collect_entities k c (config_of p)) = Inl e))"
proof -
  have "includes_email [] g = False" for g
    by (simp add: includes_email_def split: option.splits)
  then have none: "or_empty (filter_groups (Some []) ggroups) = []" for ggroups
    by (cases ggroups) (simp_all add: filter_groups_def or_empty_def)
  have collect: "member_calls tr = [] \<and> (res = Inr [] \<or> (\<exists>e. res = Inl e))"
    if c: "collect_entities k c' (config_of p) = (res, tr)" for c' res tr
    using collect_entities_phases [OF c]
  proof (elim disjE exE conjE)
    fix e assume "read_config (config_of p) = (Inl e, tr)" "res = Inl e"
    then show ?thesis using read_config_trace by blast
  next
    fix cid gc qc e assume "fetch_groups c' cid qc [] = (Inl e, tr)" "res = Inl e"
    then show ?thesis using fetch_groups_trace by fastforce
  next
    fix cid gc qc resp ggroups trf
    assume rc: "read_config (config_of p) = (Inr (cid, gc, qc), [])"
      and f: "fetch_groups c' cid qc [] = (Inr (resp, ggroups), trf)"
      and g: "groups_loop k c' resp (or_empty (filter_groups gc ggroups)) [] trf = (res, tr)"
    from rc assms have "gc = Some []" using read_config_success by fastforce
    with g none have "res = Inr []" "tr = trf" by simp_all
    moreover from fetch_groups_trace [OF f] have "member_calls trf = []" by auto
    ultimately show ?thesis by simp
  qed
  have "member_calls (snd (run k p)) = [] \<and> mutations (snd (run k p)) = []"
  proof (cases "connection p")
    case None
    then show ?thesis by (simp add: run_def)
  next
    case (Some conn)
    show ?thesis
    proof (cases "directoryApiClient p")
      case None
      with Some show ?thesis by (simp add: run_def)
    next
      case client: (Some c')
      obtain res tr where c: "collect_entities k c' (config_of p) = (res, tr)"
        by (cases "collect_entities k c' (config_of p)")
      from collect [OF c] collect_entities_no_mutation [OF c] Some client c show ?thesis
        by (auto simp add: run_def)
    qed
  qed
  moreover have "directoryApiClient p = Some c \<longrightarrow>
      fst (collect_entities k c (config_of p)) = Inr [] \<or> (\<exists>e. fst (collect_entities k c (config_of p)) = Inl e)"
    using collect [of c] by (cases "collect_entities k c (config_of p)") auto
  ultimately show ?thesis using none by blast
qed

theorem empty_allow_list_syncs_nothing_witness:
  "or_empty (filter_groups (Some []) (Some [group_one, group_two])) = []
   \<and> member_calls (snd (run example_kebabCase (example_provider config_nothing_allowed example_client))) = []
   \<and> mutations (snd (run example_kebabCase (example_provider config_nothing_allowed example_client))) = []
   \<and> fst (collect_entities example_kebabCase example_client config_nothing_allowed) = Inr []"
proof -
  let ?p = "example_provider config_nothing_allowed example_client"
  have h: "groups (config_of ?p) = Inr (Some [])"
    by (simp add: example_provider_def config_nothing_allowed_def)
  have c: "directoryApiClient ?p = Some example_client" "config_of ?p = config_nothing_allowed"
    by (simp_all add: example_provider_def)
  have "fst (collect_entities example_kebabCase example_client config_nothing_allowed) = Inr []"
    by (simp add: all_defs)
  with empty_allow_list_syncs_nothing [OF h, of "Some [group_one, group_two]" example_kebabCase example_client]
  show ?thesis by simp
qed

end
